theory Spec2Isabelle
  imports Complex_Main "HOL-Library.Word"
begin

unbundle bit_operations_syntax

section \<open>The board: pins, events and the outside world\<close>

text \<open>
  The firmware of \<^verbatim>\<open>test-final.ino\<close> is a sequential program whose only effects are
  calls into the Arduino core and the sensor, WiFi and HTTP libraries. The embedding
  threads a \<open>world\<close> through every call: the level of each digital output, and the
  trace of all calls made so far, oldest first. Values that come from outside (an
  analog conversion, a sensor reading, the WiFi status, an HTTP answer) are supplied by
  an \<open>env\<close>, each as a function of the trace up to the call, so that an answer may
  depend on everything the program did before and on how often it asked.
\<close>

type_synonym byte = "8 word"
type_synonym pin = nat

text \<open>Pin definitions, lines 9 to 16 of the source.\<close>

definition S0 :: pin where "S0 = 25"
definition S1 :: pin where "S1 = 26"
definition S2 :: pin where "S2 = 27"
definition S3 :: pin where "S3 = 32"
definition MUX_SIG :: pin where "MUX_SIG = 34"
definition GREEN_LED :: pin where "GREEN_LED = 12"
definition RED_LED :: pin where "RED_LED = 14"
definition BUILTIN_LED :: pin where "BUILTIN_LED = 2"

text \<open>Threshold for pressure detection, line 23.\<close>

definition PRESSURE_THRESHOLD :: int where "PRESSURE_THRESHOLD = 100"

text \<open>The Arduino levels: \<^verbatim>\<open>LOW\<close> is 0 and \<^verbatim>\<open>HIGH\<close> is 1.\<close>

definition LOW :: byte where "LOW = 0"
definition HIGH :: byte where "HIGH = 1"

text \<open>
  A \<^verbatim>\<open>float\<close> as far as the program looks at it: it only asks \<^verbatim>\<open>isnan\<close>, assigns
  the constant \<open>-1\<close> and hands the value to the formatter.
\<close>

datatype c_float = NaN | PosInf | NegInf | Finite rat

fun isnan :: "c_float \<Rightarrow> bool" where
  "isnan NaN = True"
| "isnan _ = False"

datatype pin_mode = INPUT | OUTPUT

text \<open>
  The seven values \<^verbatim>\<open>loop\<close> takes from the three events \<^verbatim>\<open>mpu.getEvent(&a, &g, &temp)\<close>
  fills in.
\<close>

record mpu_event =
  accelX :: c_float
  accelY :: c_float
  accelZ :: c_float
  gyroX :: c_float
  gyroY :: c_float
  gyroZ :: c_float
  mpuTemp :: c_float

datatype event =
    DigitalWrite pin bool
  | DigitalRead pin bool
  | PinMode pin pin_mode
  | Delay nat
  | AnalogRead pin int
  | SerialReady bool
  | SerialOut string
  | WiFiBegin string string
  | WiFiStatus bool
  | WiFiLocalIP string
  | HttpBegin string
  | HttpGet int
  | HttpGetString string
  | MpuBegin bool
  | MpuGetEvent mpu_event
  | DhtReadHumidity c_float
  | DhtReadTemperature c_float
  | Call string

record world =
  pins :: "pin \<Rightarrow> bool"
  trace :: "event list"

record env =
  analog_in :: "event list \<Rightarrow> int"
  digital_in :: "event list \<Rightarrow> bool"
  serial_ready :: "event list \<Rightarrow> bool"
  wifi_connected :: "event list \<Rightarrow> bool"
  wifi_localIP :: "event list \<Rightarrow> string"
  http_code :: "event list \<Rightarrow> int"
  http_payload :: "event list \<Rightarrow> string"
  http_errorToString :: "int \<Rightarrow> string"
  mpu_found :: "event list \<Rightarrow> bool"
  mpu_reading :: "event list \<Rightarrow> mpu_event"
  dht_humidity :: "event list \<Rightarrow> c_float"
  dht_temperature :: "event list \<Rightarrow> c_float"
  String_float :: "c_float \<Rightarrow> nat \<Rightarrow> string"

definition emit :: "event \<Rightarrow> world \<Rightarrow> world" where
  "emit e w = w\<lparr>trace := trace w @ [e]\<rparr>"

subsection \<open>The Arduino core calls the program makes\<close>

text \<open>
  \<^verbatim>\<open>digitalWrite(pin, val)\<close> drives the pin high for every non-zero \<open>val\<close>.
  \<^verbatim>\<open>bitRead(value, bit)\<close> is the core's macro \<^verbatim>\<open>(((value) >> (bit)) & 0x01)\<close>.
\<close>

definition digitalWrite :: "pin \<Rightarrow> byte \<Rightarrow> world \<Rightarrow> world" where
  "digitalWrite p val w =
     emit (DigitalWrite p (val \<noteq> 0)) (w\<lparr>pins := (pins w)(p := (val \<noteq> 0))\<rparr>)"

definition bitRead :: "byte \<Rightarrow> nat \<Rightarrow> byte" where
  "bitRead val b = drop_bit b val AND 1"

definition delay :: "nat \<Rightarrow> world \<Rightarrow> world" where
  "delay ms w = emit (Delay ms) w"

definition analogRead :: "env \<Rightarrow> pin \<Rightarrow> world \<Rightarrow> int \<times> world" where
  "analogRead E p w = (let v = analog_in E (trace w) in (v, emit (AnalogRead p v) w))"

definition Serial_print :: "string \<Rightarrow> world \<Rightarrow> world" where
  "Serial_print s w = emit (SerialOut s) w"

definition Serial_println :: "string \<Rightarrow> world \<Rightarrow> world" where
  "Serial_println s w = emit (SerialOut (s @ [CHR 0x0D, CHR 0x0A])) w"

definition pinMode :: "pin \<Rightarrow> pin_mode \<Rightarrow> world \<Rightarrow> world" where
  "pinMode p m w = emit (PinMode p m) w"

definition digitalRead :: "env \<Rightarrow> pin \<Rightarrow> world \<Rightarrow> byte \<times> world" where
  "digitalRead E p w =
     (let b = digital_in E (trace w) in (if b then HIGH else LOW, emit (DigitalRead p b) w))"

text \<open>A library call that returns nothing the program uses and drives no pin.\<close>

definition call :: "string \<Rightarrow> world \<Rightarrow> world" where
  "call name w = emit (Call name) w"

subsection \<open>The library calls that return a value\<close>

definition WiFi_connected :: "env \<Rightarrow> world \<Rightarrow> bool \<times> world" where
  "WiFi_connected E w = (let c = wifi_connected E (trace w) in (c, emit (WiFiStatus c) w))"

definition WiFi_localIP :: "env \<Rightarrow> world \<Rightarrow> string \<times> world" where
  "WiFi_localIP E w = (let a = wifi_localIP E (trace w) in (a, emit (WiFiLocalIP a) w))"

definition http_GET :: "env \<Rightarrow> world \<Rightarrow> int \<times> world" where
  "http_GET E w = (let c = http_code E (trace w) in (c, emit (HttpGet c) w))"

definition http_getString :: "env \<Rightarrow> world \<Rightarrow> string \<times> world" where
  "http_getString E w = (let s = http_payload E (trace w) in (s, emit (HttpGetString s) w))"

definition mpu_begin :: "env \<Rightarrow> world \<Rightarrow> bool \<times> world" where
  "mpu_begin E w = (let b = mpu_found E (trace w) in (b, emit (MpuBegin b) w))"

definition mpu_getEvent :: "env \<Rightarrow> world \<Rightarrow> mpu_event \<times> world" where
  "mpu_getEvent E w = (let r = mpu_reading E (trace w) in (r, emit (MpuGetEvent r) w))"

definition dht_readHumidity :: "env \<Rightarrow> world \<Rightarrow> c_float \<times> world" where
  "dht_readHumidity E w = (let h = dht_humidity E (trace w) in (h, emit (DhtReadHumidity h) w))"

definition dht_readTemperature :: "env \<Rightarrow> world \<Rightarrow> c_float \<times> world" where
  "dht_readTemperature E w =
     (let t = dht_temperature E (trace w) in (t, emit (DhtReadTemperature t) w))"

section \<open>Channel Selector\<close>

text \<open>
  \<^verbatim>\<open>
  void selectMuxChannel(byte channel) {
    digitalWrite(S0, bitRead(channel, 0));
    digitalWrite(S1, bitRead(channel, 1));
    digitalWrite(S2, bitRead(channel, 2));
    digitalWrite(S3, bitRead(channel, 3));
  }
  \<close>
\<close>

definition selectMuxChannel :: "byte \<Rightarrow> world \<Rightarrow> world" where
  "selectMuxChannel channel w =
     (let w1 = digitalWrite S0 (bitRead channel 0) w;
          w2 = digitalWrite S1 (bitRead channel 1) w1;
          w3 = digitalWrite S2 (bitRead channel 2) w2;
          w4 = digitalWrite S3 (bitRead channel 3) w3
      in w4)"

text \<open>
  The channel a sixteen-way multiplexer routes for given levels of the four select
  lines: the first line is bit 0 of the address, the fourth is bit 3.
\<close>

definition mux_address :: "(pin \<Rightarrow> bool) \<Rightarrow> nat" where
  "mux_address ps =
     of_bool (ps S0) + 2 * of_bool (ps S1) + 4 * of_bool (ps S2) + 8 * of_bool (ps S3)"

text \<open>The events a call appended: what the trace holds beyond the one it started from.\<close>

definition new_events :: "world \<Rightarrow> world \<Rightarrow> event list" where
  "new_events w w' = drop (length (trace w)) (trace w')"

section \<open>Rendering numbers\<close>

text \<open>
  \<^verbatim>\<open>String(n)\<close> and \<^verbatim>\<open>Serial.print(n)\<close> of an \<^verbatim>\<open>int\<close> give its decimal digits,
  with a minus sign for a negative value. \<^verbatim>\<open>String(x, 2)\<close> of a \<^verbatim>\<open>float\<close> is left to
  the \<open>env\<close> (\<open>String_float\<close>).
\<close>

definition digit_char :: "nat \<Rightarrow> char" where
  "digit_char d = char_of (of_char CHR ''0'' + d)"

function dec_nat :: "nat \<Rightarrow> string" where
  "dec_nat n = (if n < 10 then [digit_char n] else dec_nat (n div 10) @ [digit_char (n mod 10)])"
  by pat_completeness auto
termination
  by (relation "measure (\<lambda>n. n)") auto

declare dec_nat.simps [simp del]

definition String_int :: "int \<Rightarrow> string" where
  "String_int i = (if i < 0 then CHR ''-'' # dec_nat (nat (- i)) else dec_nat (nat i))"

section \<open>Sensor Sweep\<close>

text \<open>
  Lines 140 to 160 of \<^verbatim>\<open>loop\<close>:
  \<^verbatim>\<open>
  String fsrData = "";
  int activeSensors = 0;
  for (int i = 0; i < 12; i++) {
    selectMuxChannel(i);
    delay(10); // Small delay for mux to settle
    int fsrValue = analogRead(MUX_SIG);
    if (fsrValue > PRESSURE_THRESHOLD) {
      activeSensors++;
    }
    fsrData += "fsr" + String(i) + "=" + String(fsrValue);
    if (i < 11) fsrData += "&";
    Serial.print("FSR");
    Serial.print(i);
    Serial.print(": ");
    Serial.print(fsrValue);
    Serial.print("\t");
  }
  \<close>
  The two locals and the board make the state of the loop. The body is \<open>sweep_body\<close>,
  literal for literal. The loop is \<open>sweep_from\<close>; its bound, the literal 12 of the
  source, is the argument \<open>channelCount\<close>, which \<open>read_fsr\<close> sets to 12. The counters
  are \<^verbatim>\<open>int\<close> in the source and stay between 0 and the bound, so they cannot wrap
  and are modelled by \<open>int\<close>. The call \<^verbatim>\<open>selectMuxChannel(i)\<close> converts \<open>i\<close> to a
  \<^verbatim>\<open>byte\<close>.
\<close>

record sweep_state =
  fsrData :: string
  activeSensors :: int
  hw :: world

definition sweep_body :: "env \<Rightarrow> int \<Rightarrow> sweep_state \<Rightarrow> sweep_state" where
  "sweep_body E i st =
     (let w1 = selectMuxChannel (of_int i) (hw st);
          w2 = delay 10 w1;
          (fsrValue, w3) = analogRead E MUX_SIG w2;
          active = (if fsrValue > PRESSURE_THRESHOLD then activeSensors st + 1
                    else activeSensors st);
          data1 = fsrData st @ ''fsr'' @ String_int i @ ''='' @ String_int fsrValue;
          data2 = (if i < 11 then data1 @ ''&'' else data1);
          w4 = Serial_print ''FSR'' w3;
          w5 = Serial_print (String_int i) w4;
          w6 = Serial_print '': '' w5;
          w7 = Serial_print (String_int fsrValue) w6;
          w8 = Serial_print [CHR 0x09] w7
      in \<lparr>fsrData = data2, activeSensors = active, hw = w8\<rparr>)"

function sweep_from :: "env \<Rightarrow> int \<Rightarrow> int \<Rightarrow> sweep_state \<Rightarrow> sweep_state" where
  "sweep_from E channelCount i st =
     (if i < channelCount then sweep_from E channelCount (i + 1) (sweep_body E i st) else st)"
  by pat_completeness auto
termination
  by (relation "measure (\<lambda>(E, channelCount, i, st). nat (channelCount - i))") auto

declare sweep_from.simps [simp del]

definition sweep :: "env \<Rightarrow> int \<Rightarrow> world \<Rightarrow> sweep_state" where
  "sweep E channelCount w =
     sweep_from E channelCount 0 \<lparr>fsrData = [], activeSensors = 0, hw = w\<rparr>"

definition read_fsr :: "env \<Rightarrow> world \<Rightarrow> sweep_state" where
  "read_fsr E w = sweep E 12 w"

text \<open>
  The result sequence of a sweep is the sequence of values its analog conversions
  returned, in the order they were taken.
\<close>

fun samples_of :: "event list \<Rightarrow> int list" where
  "samples_of [] = []"
| "samples_of (AnalogRead p v # es) = v # samples_of es"
| "samples_of (e # es) = samples_of es"

definition sweep_samples :: "env \<Rightarrow> int \<Rightarrow> world \<Rightarrow> int list" where
  "sweep_samples E channelCount w = samples_of (new_events w (hw (sweep E channelCount w)))"

section \<open>WiFi and the uplink\<close>

text \<open>WiFi credentials and the script URL, lines 26 to 30.\<close>

definition ssid :: string where "ssid = ''******''"
definition password :: string where "password = ''*******''"

definition googleScriptUrl :: string where
  "googleScriptUrl =
     ''https://script.google.com/macros/s/AKfycbwFf7epl4aLooQaQuwpO4kNYRSF6kAoNyJt2rCd3dNmlJ4ajh6qG7rEZkanURfMmF3PlQ/exec''"

definition HTTP_CODE_OK :: int where "HTTP_CODE_OK = 200"

text \<open>
  The loop of \<^verbatim>\<open>connectToWiFi\<close>, lines 49 to 55:
  \<^verbatim>\<open>
  int attempts = 0;
  while (WiFi.status() != WL_CONNECTED && attempts < 20) {
    digitalWrite(BUILTIN_LED, !digitalRead(BUILTIN_LED));
    delay(500);
    Serial.print(".");
    attempts++;
  }
  \<close>
\<close>

function wifi_wait :: "env \<Rightarrow> int \<Rightarrow> world \<Rightarrow> world" where
  "wifi_wait E attempts w =
     (if \<not> fst (WiFi_connected E w) \<and> attempts < 20
      then wifi_wait E (attempts + 1)
             (Serial_print ''.''
               (delay 500
                 (digitalWrite BUILTIN_LED
                    (if fst (digitalRead E BUILTIN_LED (snd (WiFi_connected E w))) = 0 then 1 else 0)
                    (snd (digitalRead E BUILTIN_LED (snd (WiFi_connected E w)))))))
      else snd (WiFi_connected E w))"
  by pat_completeness auto
termination
  by (relation "measure (\<lambda>(E, attempts, w). nat (20 - attempts))") auto

declare wifi_wait.simps [simp del]

definition connectToWiFi :: "env \<Rightarrow> world \<Rightarrow> world" where
  "connectToWiFi E w =
     (let w1 = Serial_println ''Connecting to WiFi...'' w;
          w2 = emit (WiFiBegin ssid password) w1;
          w3 = pinMode BUILTIN_LED OUTPUT w2;
          w4 = wifi_wait E 0 w3;
          (connected, w5) = WiFi_connected E w4
      in if connected then
           (let w6 = digitalWrite BUILTIN_LED HIGH w5;
                w7 = Serial_println [] w6;
                w8 = Serial_println ''WiFi Connected'' w7;
                w9 = Serial_print ''IP Address: '' w8;
                (ip, w10) = WiFi_localIP E w9
            in Serial_println ip w10)
         else
           (let w6 = Serial_println [] w5
            in Serial_println ''WiFi Connection Failed'' w6))"

definition sendDataToGoogleSheets :: "env \<Rightarrow> string \<Rightarrow> world \<Rightarrow> world" where
  "sendDataToGoogleSheets E data w =
     (let (connected, w1) = WiFi_connected E w
      in if connected then
           (let fullUrl = googleScriptUrl @ ''?'' @ data;
                w2 = Serial_println (''Sending to URL: '' @ fullUrl) w1;
                w3 = emit (HttpBegin fullUrl) w2;
                w4 = call ''http.setFollowRedirects(HTTPC_STRICT_FOLLOW_REDIRECTS)'' w3;
                w5 = call ''http.addHeader(Content-Type, application/x-www-form-urlencoded)'' w4;
                (httpCode, w6) = http_GET E w5;
                w7 = (if httpCode = HTTP_CODE_OK then
                        (let (payload, w') = http_getString E w6
                         in Serial_println (''Server Response: '' @ payload) w')
                      else
                        Serial_print (''HTTP Error: '' @ String_int httpCode @ '' - '' @
                          http_errorToString E httpCode @ [CHR 0x0A]) w6)
            in call ''http.end()'' w7)
         else
           (let w2 = Serial_println ''WiFi Disconnected - Attempting to reconnect'' w1
            in connectToWiFi E w2))"

section \<open>Status Indicator\<close>

text \<open>
  Lines 196 and 197 of \<^verbatim>\<open>loop\<close>:
  \<^verbatim>\<open>
  digitalWrite(GREEN_LED, activeSensors > 4 ? HIGH : LOW);
  digitalWrite(RED_LED, activeSensors > 4 ? LOW : HIGH);
  \<close>
  The two levels, as functions of \<^verbatim>\<open>activeSensors\<close>, with the literal 4 of the source as
  the argument \<open>alertThreshold\<close>, which \<open>loop\<close> sets to 4.
\<close>

definition green_level :: "int \<Rightarrow> int \<Rightarrow> byte" where
  "green_level active alertThreshold = (if active > alertThreshold then HIGH else LOW)"

definition red_level :: "int \<Rightarrow> int \<Rightarrow> byte" where
  "red_level active alertThreshold = (if active > alertThreshold then LOW else HIGH)"

text \<open>
  The status the two indicator levels show: ALERT is the green output driven high with
  the red one low, NORMAL the reverse, and two equal levels show no status. The status
  decision is what the levels written by the program show.
\<close>

datatype StatusState = NORMAL | ALERT

definition shown_status :: "bool \<Rightarrow> bool \<Rightarrow> StatusState option" where
  "shown_status green red =
     (if green \<and> \<not> red then Some ALERT
      else if \<not> green \<and> red then Some NORMAL
      else None)"

definition decide :: "int \<Rightarrow> int \<Rightarrow> StatusState option" where
  "decide activeCount alertThreshold =
     shown_status (green_level activeCount alertThreshold \<noteq> 0)
       (red_level activeCount alertThreshold \<noteq> 0)"

section \<open>The environmental reading and one iteration of the loop\<close>

text \<open>
  Lines 168 to 175:
  \<^verbatim>\<open>
  float humidity = dht.readHumidity();
  float dhtTemp = dht.readTemperature();
  if (isnan(humidity) || isnan(dhtTemp)) {
    Serial.println("Failed to read from DHT sensor!");
    humidity = -1;
    dhtTemp = -1;
  }
  \<close>
\<close>

definition read_dht :: "env \<Rightarrow> world \<Rightarrow> c_float \<times> c_float \<times> world" where
  "read_dht E w =
     (let (humidity, w1) = dht_readHumidity E w;
          (dhtTemp, w2) = dht_readTemperature E w1
      in if isnan humidity \<or> isnan dhtTemp
         then (Finite (- 1), Finite (- 1), Serial_println ''Failed to read from DHT sensor!'' w2)
         else (humidity, dhtTemp, w2))"

text \<open>The complete data string, lines 178 to 188.\<close>

definition make_postData ::
  "env \<Rightarrow> string \<Rightarrow> int \<Rightarrow> mpu_event \<Rightarrow> c_float \<Rightarrow> c_float \<Rightarrow> string" where
  "make_postData E fsr active m humidity dhtTemp =
     fsr @
     ''&active='' @ String_int active @
     ''&accelX='' @ String_float E (accelX m) 2 @
     ''&accelY='' @ String_float E (accelY m) 2 @
     ''&accelZ='' @ String_float E (accelZ m) 2 @
     ''&gyroX='' @ String_float E (gyroX m) 2 @
     ''&gyroY='' @ String_float E (gyroY m) 2 @
     ''&gyroZ='' @ String_float E (gyroZ m) 2 @
     ''&mpuTemp='' @ String_float E (mpuTemp m) 2 @
     ''&dhtHumidity='' @ String_float E humidity 2 @
     ''&dhtTemp='' @ String_float E dhtTemp 2"

text \<open>
  Lines 139 to 190 of \<^verbatim>\<open>loop\<close>, up to the data string: the sweep, the inertial and the
  environmental reading. The result is the active count, the data string and the board.
\<close>

definition acquire :: "env \<Rightarrow> world \<Rightarrow> int \<times> string \<times> world" where
  "acquire E w =
     (let st = read_fsr E w;
          w1 = Serial_println [] (hw st);
          (m, w2) = mpu_getEvent E w1;
          (humidity, dhtTemp, w3) = read_dht E w2;
          postData = make_postData E (fsrData st) (activeSensors st) m humidity dhtTemp;
          w4 = Serial_println (''Complete Data: '' @ postData) w3
      in (activeSensors st, postData, w4))"

text \<open>
  Lines 192 to 199: the upload, the two indicator writes and the pause. \<open>loop_green\<close> is
  the board between the two indicator writes, after line 196 and before line 197.
\<close>

definition loop_green :: "env \<Rightarrow> world \<Rightarrow> world" where
  "loop_green E w =
     (let (active, postData, w1) = acquire E w;
          w2 = sendDataToGoogleSheets E postData w1
      in digitalWrite GREEN_LED (green_level active 4) w2)"

definition loop :: "env \<Rightarrow> world \<Rightarrow> world" where
  "loop E w =
     (let (active, postData, w1) = acquire E w;
          w2 = sendDataToGoogleSheets E postData w1;
          w3 = digitalWrite GREEN_LED (green_level active 4) w2;
          w4 = digitalWrite RED_LED (red_level active 4) w3
      in delay 500 w4)"

section \<open>Initialization and the states the program reaches\<close>

text \<open>
  \<^verbatim>\<open>while (!Serial) delay(10);\<close> of line 99 returns only once the serial port is ready:
  \<open>None\<close> is the loop that never ends.
\<close>

partial_function (option) wait_serial :: "env \<Rightarrow> world \<Rightarrow> world option" where
  "wait_serial E w =
     (if serial_ready E (trace w) then Some (emit (SerialReady True) w)
      else wait_serial E (delay 10 (emit (SerialReady False) w)))"

text \<open>
  \<^verbatim>\<open>setup\<close>, lines 97 to 136, under the name \<open>setup_ino\<close>. When the inertial sensor is not found it prints a message
  and stays in \<^verbatim>\<open>while (1) delay(10);\<close> for ever: it returns nothing.
\<close>

definition setup_ino :: "env \<Rightarrow> world \<Rightarrow> world option" where
  "setup_ino E w =
     (case wait_serial E (call ''Serial.begin(115200)'' w) of
        None \<Rightarrow> None
      | Some w0 \<Rightarrow>
         (let w1 = pinMode S0 OUTPUT w0;
              w2 = pinMode S1 OUTPUT w1;
              w3 = pinMode S2 OUTPUT w2;
              w4 = pinMode S3 OUTPUT w3;
              w5 = pinMode MUX_SIG INPUT w4;
              w6 = pinMode GREEN_LED OUTPUT w5;
              w7 = pinMode RED_LED OUTPUT w6;
              w8 = digitalWrite RED_LED HIGH w7;
              w9 = digitalWrite GREEN_LED LOW w8;
              w10 = connectToWiFi E w9;
              w11 = call ''Wire.begin(21, 22)'' w10;
              (found, w12) = mpu_begin E w11
          in if \<not> found then None
             else
               (let w13 = Serial_println ''MPU6050 Found!'' w12;
                    w14 = call ''mpu.setAccelerometerRange(MPU6050_RANGE_8_G)'' w13;
                    w15 = call ''mpu.setGyroRange(MPU6050_RANGE_500_DEG)'' w14;
                    w16 = call ''mpu.setFilterBandwidth(MPU6050_BAND_21_HZ)'' w15;
                    w17 = call ''dht.begin()'' w16;
                    w18 = Serial_println ''DHT22 Initialized'' w17
                in Some (delay 2000 w18))))"

text \<open>
  The board at the points where \<^verbatim>\<open>setup\<close> has returned and where an iteration of
  \<^verbatim>\<open>loop\<close> has returned, from the board \<open>w0\<close> at reset.
\<close>

inductive reachable :: "env \<Rightarrow> world \<Rightarrow> world \<Rightarrow> bool" for E :: env and w0 :: world where
  after_setup: "setup_ino E w0 = Some w \<Longrightarrow> reachable E w0 w"
| after_loop: "reachable E w0 w \<Longrightarrow> reachable E w0 (loop E w)"

section \<open>What a sweep is expected to do\<close>

text \<open>The four writes of one channel selection, and everything one channel's turn does.\<close>

definition select_events :: "byte \<Rightarrow> event list" where
  "select_events c =
     [DigitalWrite S0 (bit c 0), DigitalWrite S1 (bit c 1),
      DigitalWrite S2 (bit c 2), DigitalWrite S3 (bit c 3)]"

definition channel_cycle :: "int \<Rightarrow> int \<Rightarrow> event list" where
  "channel_cycle i v =
     select_events (of_int i) @ [Delay 10, AnalogRead MUX_SIG v] @
     [SerialOut ''FSR'', SerialOut (String_int i), SerialOut '': '',
      SerialOut (String_int v), SerialOut [CHR 0x09]]"

text \<open>The value the analog input gives in the turn of channel \<open>i\<close>, started on board \<open>w\<close>.\<close>

definition body_sample :: "env \<Rightarrow> int \<Rightarrow> world \<Rightarrow> int" where
  "body_sample E i w = analog_in E (trace w @ select_events (of_int i) @ [Delay 10])"

text \<open>
  Every analog conversion of a trace with the channel the select lines addressed when it
  was taken; \<open>ps\<close> are the pin levels before the first event.
\<close>

fun selected_reads :: "(pin \<Rightarrow> bool) \<Rightarrow> event list \<Rightarrow> (nat \<times> int) list" where
  "selected_reads ps [] = []"
| "selected_reads ps (DigitalWrite p b # es) = selected_reads (ps(p := b)) es"
| "selected_reads ps (AnalogRead p v # es) = (mux_address ps, v) # selected_reads ps es"
| "selected_reads ps (e # es) = selected_reads ps es"

text \<open>The entry of channel \<open>i\<close> with sample \<open>v\<close> in the data string of a sweep.\<close>

definition fsr_field :: "int \<Rightarrow> int \<Rightarrow> string" where
  "fsr_field i v =
     ''fsr'' @ String_int i @ ''='' @ String_int v @ (if i < 11 then ''&'' else [])"

section \<open>Pin levels along a trace\<close>

text \<open>
  A digital write is the only event that changes a pin. \<open>pins_after ps evs\<close> are the pin
  levels after the events \<open>evs\<close>, from the levels \<open>ps\<close>: the pin levels at any point of an
  execution are those after the events up to that point.
\<close>

fun apply_event :: "event \<Rightarrow> (pin \<Rightarrow> bool) \<Rightarrow> (pin \<Rightarrow> bool)" where
  "apply_event (DigitalWrite p b) ps = ps(p := b)"
| "apply_event e ps = ps"

fun pins_after :: "(pin \<Rightarrow> bool) \<Rightarrow> event list \<Rightarrow> (pin \<Rightarrow> bool)" where
  "pins_after ps [] = ps"
| "pins_after ps (e # es) = pins_after (apply_event e ps) es"

fun is_write :: "event \<Rightarrow> bool" where
  "is_write (DigitalWrite p b) = True"
| "is_write e = False"

fun writes_led :: "event \<Rightarrow> bool" where
  "writes_led (DigitalWrite p b) = (p = GREEN_LED \<or> p = RED_LED)"
| "writes_led e = False"

text \<open>Exactly one of the two indicator outputs is high.\<close>

definition leds_exclusive :: "(pin \<Rightarrow> bool) \<Rightarrow> bool" where
  "leds_exclusive ps = (ps GREEN_LED \<noteq> ps RED_LED)"

text \<open>
  Board \<open>w'\<close> comes from board \<open>w\<close> by events that do not write an indicator output, and
  its pin levels are those the events give.
\<close>

definition quiet :: "world \<Rightarrow> world \<Rightarrow> bool" where
  "quiet w w' =
     (\<exists>evs. trace w' = trace w @ evs \<and> list_all (\<lambda>e. \<not> writes_led e) evs \<and>
            pins w' = pins_after (pins w) evs)"

text \<open>The board of an iteration of \<^verbatim>\<open>loop\<close> after the upload of line 193.\<close>

definition before_leds :: "env \<Rightarrow> world \<Rightarrow> world" where
  "before_leds E w =
     sendDataToGoogleSheets E (fst (snd (acquire E w))) (snd (snd (acquire E w)))"

text \<open>
  The board of an iteration of \<^verbatim>\<open>loop\<close> before the two reads of the environmental sensor,
  the two values the sensor returns there, and the two values the program holds after
  line 175.
\<close>

definition dht_board :: "env \<Rightarrow> world \<Rightarrow> world" where
  "dht_board E w = snd (mpu_getEvent E (Serial_println [] (hw (read_fsr E w))))"

definition humidity_read :: "env \<Rightarrow> world \<Rightarrow> c_float" where
  "humidity_read E w = dht_humidity E (trace (dht_board E w))"

definition temperature_read :: "env \<Rightarrow> world \<Rightarrow> c_float" where
  "temperature_read E w =
     dht_temperature E (trace (dht_board E w) @ [DhtReadHumidity (humidity_read E w)])"

definition humidity_sent :: "env \<Rightarrow> world \<Rightarrow> c_float" where
  "humidity_sent E w = fst (read_dht E (dht_board E w))"

definition dhtTemp_sent :: "env \<Rightarrow> world \<Rightarrow> c_float" where
  "dhtTemp_sent E w = fst (snd (read_dht E (dht_board E w)))"

section \<open>A bench set-up\<close>

text \<open>
  A board at reset and an environment: every pressure sensor reads 150, the serial port
  is ready, the network is up, both sensors answer.
\<close>

definition reset_board :: world where
  "reset_board = \<lparr>pins = (\<lambda>p. False), trace = []\<rparr>"

definition still :: mpu_event where
  "still = \<lparr>accelX = Finite 0, accelY = Finite 0, accelZ = Finite 0,
            gyroX = Finite 0, gyroY = Finite 0, gyroZ = Finite 0, mpuTemp = Finite 25\<rparr>"

definition bench :: env where
  "bench = \<lparr>analog_in = (\<lambda>tr. 150), digital_in = (\<lambda>tr. False),
            serial_ready = (\<lambda>tr. True), wifi_connected = (\<lambda>tr. True),
            wifi_localIP = (\<lambda>tr. ''192.168.0.2''), http_code = (\<lambda>tr. 200),
            http_payload = (\<lambda>tr. ''ok''), http_errorToString = (\<lambda>c. []),
            mpu_found = (\<lambda>tr. True), mpu_reading = (\<lambda>tr. still),
            dht_humidity = (\<lambda>tr. Finite 40), dht_temperature = (\<lambda>tr. Finite 21),
            String_float = (\<lambda>x d. ''?'')\<rparr>"

text \<open>The bench with the four readings 50, 150, 99 and 101 on the analog input, in turn.\<close>

definition four_readings :: env where
  "four_readings =
     bench\<lparr>analog_in := (\<lambda>tr. [50, 150, 99, 101] ! length (samples_of tr))\<rparr>"

section \<open>Facts about the pins and the Channel Selector\<close>

lemmas pin_defs = S0_def S1_def S2_def S3_def MUX_SIG_def GREEN_LED_def RED_LED_def
  BUILTIN_LED_def

lemma trace_new_events: "trace w' = trace w @ evs \<Longrightarrow> new_events w w' = evs"
  by (simp add: new_events_def)

lemma bitRead_nonzero: "(bitRead c k \<noteq> 0) = bit c k"
  unfolding bitRead_def
  by (simp add: bit_iff_odd_drop_bit and_one_eq mod_2_eq_odd)

lemma pins_selectMuxChannel:
  "pins (selectMuxChannel c w) =
     (pins w)(S0 := bit c 0, S1 := bit c 1, S2 := bit c 2, S3 := bit c 3)"
  by (simp add: selectMuxChannel_def digitalWrite_def emit_def bitRead_nonzero Let_def)

lemma trace_selectMuxChannel:
  "trace (selectMuxChannel c w) = trace w @ select_events c"
  by (simp add: selectMuxChannel_def digitalWrite_def emit_def bitRead_nonzero Let_def
      select_events_def)

lemma take_bit_4_nat:
  "take_bit 4 (n::nat) =
     of_bool (bit n 0) + 2 * of_bool (bit n 1) + 4 * of_bool (bit n 2) + 8 * of_bool (bit n 3)"
proof -
  have "take_bit (Suc (Suc (Suc (Suc 0)))) n =
          of_bool (bit n 0) + 2 * of_bool (bit n (Suc 0)) +
          4 * of_bool (bit n (Suc (Suc 0))) + 8 * of_bool (bit n (Suc (Suc (Suc 0))))"
    by (simp add: take_bit_Suc bit_Suc bit_0 mod_2_eq_odd)
  then show ?thesis by (simp add: numeral_eq_Suc)
qed

lemma low_nibble_bits:
  "unat ((c::byte) AND 15) =
     of_bool (bit c 0) + 2 * of_bool (bit c 1) + 4 * of_bool (bit c 2) + 8 * of_bool (bit c 3)"
proof -
  have "c AND 15 = take_bit 4 c"
    by (simp add: take_bit_eq_mask mask_eq_exp_minus_1)
  then have "unat (c AND 15) = take_bit 4 (unat c)"
    by (simp add: unsigned_take_bit_eq)
  then show ?thesis
    by (simp add: take_bit_4_nat bit_unsigned_iff)
qed

lemma mux_address_select:
  "mux_address (ps(S0 := bit c 0, S1 := bit c 1, S2 := bit c 2, S3 := bit c 3)) =
     unat ((c::byte) AND 15)"
  by (simp add: mux_address_def low_nibble_bits pin_defs)

lemma low_nibble_of_int: "unat ((of_int i :: byte) AND 15) = nat (i mod 16)"
proof -
  have "(of_int i :: byte) AND 15 = take_bit 4 (of_int i)"
    by (simp add: take_bit_eq_mask mask_eq_exp_minus_1)
  then have "uint ((of_int i :: byte) AND 15) = take_bit 4 i"
    by (simp add: unsigned_take_bit_eq uint_word_of_int_eq)
  then show ?thesis by (simp add: take_bit_eq_mod unat_eq_nat_uint)
qed

text \<open>
  C5. For every channel value, \<open>selectMuxChannel\<close> writes the four select lines and no
  other pin, the first line to bit 0 of the channel and the fourth to bit 3, so that
  the address the lines form is the channel's low four bits. For channel 9 the first
  and the fourth line are high and the second and third are low.
\<close>

theorem select_drives_low_four_bits:
  "pins (selectMuxChannel c w) =
     (pins w)(S0 := bit c 0, S1 := bit c 1, S2 := bit c 2, S3 := bit c 3) \<and>
   new_events w (selectMuxChannel c w) =
     [DigitalWrite S0 (bit c 0), DigitalWrite S1 (bit c 1),
      DigitalWrite S2 (bit c 2), DigitalWrite S3 (bit c 3)] \<and>
   mux_address (pins (selectMuxChannel c w)) = unat (c AND 15) \<and>
   (pins (selectMuxChannel 9 w) S0 \<and> \<not> pins (selectMuxChannel 9 w) S1 \<and>
    \<not> pins (selectMuxChannel 9 w) S2 \<and> pins (selectMuxChannel 9 w) S3)"
proof -
  have f1: "pins (selectMuxChannel c w) =
     (pins w)(S0 := bit c 0, S1 := bit c 1, S2 := bit c 2, S3 := bit c 3)"
    by (rule pins_selectMuxChannel)
  have "new_events w (selectMuxChannel c w) = select_events c"
    by (rule trace_new_events) (rule trace_selectMuxChannel)
  then have f2: "new_events w (selectMuxChannel c w) =
     [DigitalWrite S0 (bit c 0), DigitalWrite S1 (bit c 1),
      DigitalWrite S2 (bit c 2), DigitalWrite S3 (bit c 3)]"
    by (simp only: select_events_def)
  have f3: "mux_address (pins (selectMuxChannel c w)) = unat (c AND 15)"
    by (simp only: pins_selectMuxChannel mux_address_select)
  have f4: "pins (selectMuxChannel 9 w) S0 \<and> \<not> pins (selectMuxChannel 9 w) S1 \<and>
    \<not> pins (selectMuxChannel 9 w) S2 \<and> pins (selectMuxChannel 9 w) S3"
    by (simp add: pins_selectMuxChannel pin_defs)
  from f1 f2 f3 f4 show ?thesis by blast
qed

text \<open>
  C9. Selecting the same channel twice in a row leaves every pin as one selection leaves
  it, and the second call makes the same four writes as the first.
\<close>

theorem select_idempotent:
  "pins (selectMuxChannel c (selectMuxChannel c w)) = pins (selectMuxChannel c w) \<and>
   new_events (selectMuxChannel c w) (selectMuxChannel c (selectMuxChannel c w)) =
     new_events w (selectMuxChannel c w)"
proof -
  have "new_events w (selectMuxChannel c w) = select_events c" for w
    by (rule trace_new_events) (rule trace_selectMuxChannel)
  then show ?thesis
    by (simp add: pins_selectMuxChannel)
qed

section \<open>Facts about the Sensor Sweep\<close>

lemma trace_sweep_body:
  "trace (hw (sweep_body E i st)) =
     trace (hw st) @ channel_cycle i (body_sample E i (hw st))"
  by (simp add: sweep_body_def Let_def analogRead_def delay_def Serial_print_def emit_def
      trace_selectMuxChannel channel_cycle_def body_sample_def)

lemma activeSensors_sweep_body:
  "activeSensors (sweep_body E i st) =
     activeSensors st + (if body_sample E i (hw st) > PRESSURE_THRESHOLD then 1 else 0)"
  by (simp add: sweep_body_def Let_def analogRead_def delay_def emit_def
      trace_selectMuxChannel body_sample_def)

lemma samples_of_append: "samples_of (xs @ ys) = samples_of xs @ samples_of ys"
  by (induction xs rule: samples_of.induct) auto

lemma samples_of_channel_cycle: "samples_of (channel_cycle i v) = [v]"
  by (simp add: channel_cycle_def select_events_def)

lemma sweep_from_step:
  "i < n \<Longrightarrow> sweep_from E n i st = sweep_from E n (i + 1) (sweep_body E i st)"
  by (subst sweep_from.simps) simp

lemma sweep_from_done: "\<not> i < n \<Longrightarrow> sweep_from E n i st = st"
  by (subst sweep_from.simps) simp

text \<open>A sweep only appends to the trace.\<close>

lemma trace_sweep_from_extends:
  "\<exists>evs. trace (hw (sweep_from E n i st)) = trace (hw st) @ evs"
proof (induction E n i st rule: sweep_from.induct)
  case (1 E n i st)
  show ?case
  proof (cases "i < n")
    case True
    with 1 obtain evs where
      "trace (hw (sweep_from E n (i + 1) (sweep_body E i st))) =
         trace (hw (sweep_body E i st)) @ evs"
      by blast
    with True show ?thesis by (simp add: trace_sweep_body sweep_from_step)
  next
    case False
    then show ?thesis by (simp add: sweep_from_done)
  qed
qed

lemma trace_sweep_from:
  "trace (hw (sweep_from E n i st)) =
     trace (hw st) @ new_events (hw st) (hw (sweep_from E n i st))"
proof -
  obtain evs where "trace (hw (sweep_from E n i st)) = trace (hw st) @ evs"
    using trace_sweep_from_extends by blast
  then show ?thesis by (simp add: new_events_def)
qed

text \<open>The events of the loop from counter \<open>i\<close>: one turn, then the events of the rest.\<close>

lemma new_events_sweep_from:
  "new_events (hw st) (hw (sweep_from E n i st)) =
     (if i < n
      then channel_cycle i (body_sample E i (hw st)) @
           new_events (hw (sweep_body E i st))
             (hw (sweep_from E n (i + 1) (sweep_body E i st)))
      else [])"
proof (cases "i < n")
  case True
  obtain evs where e:
    "trace (hw (sweep_from E n (i + 1) (sweep_body E i st))) =
       trace (hw (sweep_body E i st)) @ evs"
    using trace_sweep_from_extends by blast
  have "sweep_from E n i st = sweep_from E n (i + 1) (sweep_body E i st)"
    using True by (rule sweep_from_step)
  then show ?thesis using True e
    by (simp add: new_events_def trace_sweep_body)
next
  case False
  then show ?thesis by (simp add: new_events_def sweep_from_done)
qed

lemma length_samples_sweep_from:
  "length (samples_of (new_events (hw st) (hw (sweep_from E n i st)))) = nat (n - i)"
proof (induction E n i st rule: sweep_from.induct)
  case (1 E n i st)
  show ?case
  proof (cases "i < n")
    case True
    then have "nat (n - i) = Suc (nat (n - (i + 1)))" by simp
    with True 1 show ?thesis
      by (subst new_events_sweep_from)
        (simp add: samples_of_append samples_of_channel_cycle)
  next
    case False
    then show ?thesis by (subst new_events_sweep_from) simp
  qed
qed

lemma activeSensors_sweep_from:
  "activeSensors (sweep_from E n i st) =
     activeSensors st +
     int (length (filter (\<lambda>v. v > PRESSURE_THRESHOLD)
       (samples_of (new_events (hw st) (hw (sweep_from E n i st))))))"
proof (induction E n i st rule: sweep_from.induct)
  case (1 E n i st)
  show ?case
  proof (cases "i < n")
    case True
    have s: "sweep_from E n i st = sweep_from E n (i + 1) (sweep_body E i st)"
      using True by (rule sweep_from_step)
    have "activeSensors (sweep_from E n (i + 1) (sweep_body E i st)) =
       activeSensors st +
       int (length (filter (\<lambda>v. v > PRESSURE_THRESHOLD)
         (samples_of (channel_cycle i (body_sample E i (hw st)) @
            new_events (hw (sweep_body E i st))
              (hw (sweep_from E n (i + 1) (sweep_body E i st)))))))"
      using 1 [OF True]
      by (simp add: samples_of_append samples_of_channel_cycle activeSensors_sweep_body)
    then show ?thesis
      using True by (subst new_events_sweep_from, subst s) simp
  next
    case False
    then show ?thesis by (subst new_events_sweep_from) (simp add: sweep_from_done)
  qed
qed

lemma new_events_sweep_from_cycles:
  "new_events (hw st) (hw (sweep_from E n i st)) =
     concat (map (\<lambda>k. channel_cycle (i + int k)
                  (samples_of (new_events (hw st) (hw (sweep_from E n i st))) ! k))
        [0..<nat (n - i)])"
proof (induction E n i st rule: sweep_from.induct)
  case (1 E n i st)
  show ?case
  proof (cases "i < n")
    case True
    define st' where "st' = sweep_body E i st"
    define rest where "rest = new_events (hw st') (hw (sweep_from E n (i + 1) st'))"
    define v where "v = body_sample E i (hw st)"
    have ne: "new_events (hw st) (hw (sweep_from E n i st)) = channel_cycle i v @ rest"
      using True by (subst new_events_sweep_from) (simp add: st'_def rest_def v_def)
    have ih: "rest = concat (map (\<lambda>k. channel_cycle (i + 1 + int k) (samples_of rest ! k))
                  [0..<nat (n - (i + 1))])"
      using 1 [OF True] by (simp add: st'_def rest_def)
    have n: "nat (n - i) = Suc (nat (n - (i + 1)))" using True by simp
    have "concat (map (\<lambda>k. channel_cycle (i + int k)
                     (samples_of (channel_cycle i v @ rest) ! k))
             [0..<Suc (nat (n - (i + 1)))])
          = channel_cycle i v @
            concat (map (\<lambda>k. channel_cycle (i + 1 + int k) (samples_of rest ! k))
                  [0..<nat (n - (i + 1))])"
      by (simp add: map_upt_Suc samples_of_append samples_of_channel_cycle add.assoc
          del: upt_Suc)
    then show ?thesis
      unfolding ne n using ih by simp
  next
    case False
    then show ?thesis by (subst new_events_sweep_from) simp
  qed
qed

lemma selected_reads_channel_cycle:
  "selected_reads ps (channel_cycle i v @ es) =
     (nat (i mod 16), v) #
       selected_reads (ps(S0 := bit (of_int i :: byte) 0, S1 := bit (of_int i :: byte) 1,
          S2 := bit (of_int i :: byte) 2, S3 := bit (of_int i :: byte) 3)) es"
  using mux_address_select [of ps "of_int i"]
  by (simp add: channel_cycle_def select_events_def low_nibble_of_int)

lemma selected_reads_cycles:
  "selected_reads ps (concat (map (\<lambda>k. channel_cycle (i + int k) (f k)) [0..<m])) =
     map (\<lambda>k. (nat ((i + int k) mod 16), f k)) [0..<m]"
proof (induction m arbitrary: i f ps)
  case 0
  then show ?case by simp
next
  case (Suc m)
  have "selected_reads ps (concat (map (\<lambda>k. channel_cycle (i + int k) (f k)) [0..<Suc m])) =
        selected_reads ps (channel_cycle i (f 0) @
           concat (map (\<lambda>k. channel_cycle (i + 1 + int k) (f (Suc k))) [0..<m]))"
    by (simp add: map_upt_Suc add.assoc del: upt_Suc)
  also have "\<dots> =
      (nat (i mod 16), f 0) # map (\<lambda>k. (nat ((i + 1 + int k) mod 16), f (Suc k))) [0..<m]"
    by (simp only: selected_reads_channel_cycle Suc.IH)
  also have "\<dots> = map (\<lambda>k. (nat ((i + int k) mod 16), f k)) [0..<Suc m]"
    by (simp add: map_upt_Suc add.assoc del: upt_Suc)
  finally show ?case .
qed

lemma zip_upt_nth: "length xs = m \<Longrightarrow> zip [0..<m] xs = map (\<lambda>k. (k, xs ! k)) [0..<m]"
  by (rule nth_equalityI) simp_all

lemma sweep_samples_from:
  "sweep_samples E n w =
     samples_of (new_events (hw \<lparr>fsrData = [], activeSensors = 0, hw = w\<rparr>)
       (hw (sweep_from E n 0 \<lparr>fsrData = [], activeSensors = 0, hw = w\<rparr>)))"
  by (simp add: sweep_samples_def sweep_def)

lemma length_sweep_samples: "length (sweep_samples E n w) = nat n"
  using length_samples_sweep_from [of "\<lparr>fsrData = [], activeSensors = 0, hw = w\<rparr>" E n 0]
  by (simp add: sweep_samples_from)

lemma new_events_sweep_cycles:
  "new_events w (hw (sweep E n w)) =
     concat (map (\<lambda>k. channel_cycle (int k) (sweep_samples E n w ! k)) [0..<nat n])"
  using new_events_sweep_from_cycles [of "\<lparr>fsrData = [], activeSensors = 0, hw = w\<rparr>" E n 0]
  by (simp add: sweep_samples_def sweep_def)

lemma fsrData_sweep_body:
  "fsrData (sweep_body E i st) =
     fsrData st @ fsr_field i (body_sample E i (hw st))"
  by (simp add: sweep_body_def Let_def analogRead_def delay_def emit_def
      trace_selectMuxChannel body_sample_def fsr_field_def)

lemma fsrData_sweep_from:
  "fsrData (sweep_from E n i st) =
     fsrData st @
     concat (map (\<lambda>k. fsr_field (i + int k)
                  (samples_of (new_events (hw st) (hw (sweep_from E n i st))) ! k))
        [0..<nat (n - i)])"
proof (induction E n i st rule: sweep_from.induct)
  case (1 E n i st)
  show ?case
  proof (cases "i < n")
    case True
    define st' where "st' = sweep_body E i st"
    define rest where "rest = new_events (hw st') (hw (sweep_from E n (i + 1) st'))"
    define v where "v = body_sample E i (hw st)"
    have s: "sweep_from E n i st = sweep_from E n (i + 1) st'"
      using True by (simp add: st'_def sweep_from_step)
    have ne: "new_events (hw st) (hw (sweep_from E n i st)) = channel_cycle i v @ rest"
      using True by (subst new_events_sweep_from) (simp add: st'_def rest_def v_def)
    have ih: "fsrData (sweep_from E n (i + 1) st') =
        fsrData st' @ concat (map (\<lambda>k. fsr_field (i + 1 + int k) (samples_of rest ! k))
                  [0..<nat (n - (i + 1))])"
      using 1 [OF True] by (simp add: st'_def rest_def)
    have n: "nat (n - i) = Suc (nat (n - (i + 1)))" using True by simp
    have c: "concat (map (\<lambda>k. fsr_field (i + int k)
                     (samples_of (channel_cycle i v @ rest) ! k))
             [0..<Suc (nat (n - (i + 1)))])
          = fsr_field i v @
            concat (map (\<lambda>k. fsr_field (i + 1 + int k) (samples_of rest ! k))
                  [0..<nat (n - (i + 1))])"
      by (simp add: map_upt_Suc samples_of_append samples_of_channel_cycle add.assoc
          del: upt_Suc)
    have fin: "fsrData (sweep_from E n (i + 1) st') =
        fsrData st @ concat (map (\<lambda>k. fsr_field (i + int k)
                     (samples_of (channel_cycle i v @ rest) ! k))
             [0..<Suc (nat (n - (i + 1)))])"
      unfolding ih c by (simp add: st'_def v_def fsrData_sweep_body)
    show ?thesis
      unfolding ne n unfolding s by (rule fin)
  next
    case False
    then show ?thesis by (simp add: new_events_def sweep_from_done)
  qed
qed

lemma activeSensors_sweep:
  "activeSensors (sweep E n w) =
     int (length (filter (\<lambda>v. v > PRESSURE_THRESHOLD) (sweep_samples E n w)))"
  using activeSensors_sweep_from [of E n 0 "\<lparr>fsrData = [], activeSensors = 0, hw = w\<rparr>"]
  by (simp add: sweep_samples_def sweep_def)

lemma acquire_active: "fst (acquire E w) = activeSensors (read_fsr E w)"
  by (simp add: acquire_def Let_def split_def)

text \<open>
  C1. The active count a sweep produces is the number of its samples that are strictly
  greater than the pressure threshold, whatever happened on the board before the sweep:
  the sweep starts its count at zero and nothing of an earlier sweep enters it. So the
  active count of every iteration of \<^verbatim>\<open>loop\<close>, also of one that follows another, is the
  number of the twelve samples of its own sweep above the threshold. On a four-channel
  sweep that reads 50, 150, 99 and 101 the count is 2.
\<close>

theorem active_count_counts_samples_over_threshold:
  "activeSensors (sweep E channelCount w) =
     int (length (filter (\<lambda>v. v > PRESSURE_THRESHOLD) (sweep_samples E channelCount w))) \<and>
   fst (acquire E (loop E w)) =
     int (length (filter (\<lambda>v. v > PRESSURE_THRESHOLD) (sweep_samples E 12 (loop E w)))) \<and>
   sweep_samples four_readings 4 reset_board = [50, 150, 99, 101] \<and>
   activeSensors (sweep four_readings 4 reset_board) = 2"
proof -
  have "fst (acquire E (loop E w)) =
     int (length (filter (\<lambda>v. v > PRESSURE_THRESHOLD) (sweep_samples E 12 (loop E w))))"
    by (simp only: acquire_active read_fsr_def activeSensors_sweep)
  moreover have "sweep_samples four_readings 4 reset_board = [50, 150, 99, 101]"
    by code_simp
  moreover have "activeSensors (sweep four_readings 4 reset_board) = 2"
    by code_simp
  ultimately show ?thesis
    using activeSensors_sweep [of E channelCount w] by blast
qed

text \<open>
  C3. For every channel count that is not negative a sweep takes exactly that many
  samples; with channel count 0 it takes none, and its active count is 0.
\<close>

theorem sweep_takes_channelCount_samples:
  "0 \<le> channelCount \<Longrightarrow>
     int (length (sweep_samples E channelCount w)) = channelCount \<and>
     sweep_samples E 0 w = [] \<and> activeSensors (sweep E 0 w) = 0"
proof -
  assume "0 \<le> channelCount"
  then have "int (length (sweep_samples E channelCount w)) = channelCount"
    by (simp add: length_sweep_samples)
  moreover have "sweep_samples E 0 w = []"
    using length_sweep_samples [of E 0 w] by simp
  moreover have "activeSensors (sweep E 0 w) = 0"
    by (simp add: sweep_def sweep_from_done)
  ultimately show ?thesis by blast
qed

theorem sweep_takes_channelCount_samples_witness:
  "(0::int) \<le> 12 \<and> int (length (sweep_samples bench 12 reset_board)) = 12 \<and>
   sweep_samples bench 0 reset_board = [] \<and> activeSensors (sweep bench 0 reset_board) = 0"
  using sweep_takes_channelCount_samples [of 12 bench reset_board] by simp

text \<open>
  C4. In a sweep over at most sixteen channels the analog conversions are taken, in
  this order, with the select lines addressing channel 0, 1, and so on up to the
  channel count less one, one conversion for each: the conversions paired with the
  channel addressed when they were taken are the samples paired with their own
  positions. The data string holds the samples in the same order, the entry at
  position \<open>k\<close> under the name of channel \<open>k\<close>.
\<close>

theorem sweep_samples_in_channel_order:
  "channelCount \<le> 16 \<Longrightarrow>
     selected_reads (pins w) (new_events w (hw (sweep E channelCount w))) =
       zip [0..<nat channelCount] (sweep_samples E channelCount w) \<and>
     fsrData (sweep E channelCount w) =
       concat (map (\<lambda>k. fsr_field (int k) (sweep_samples E channelCount w ! k))
         [0..<nat channelCount])"
proof -
  assume le: "channelCount \<le> 16"
  let ?S = "sweep_samples E channelCount w"
  have "selected_reads (pins w) (new_events w (hw (sweep E channelCount w))) =
          map (\<lambda>k. (nat ((0 + int k) mod 16), ?S ! k)) [0..<nat channelCount]"
    by (simp only: new_events_sweep_cycles [of w E channelCount]
          selected_reads_cycles [of "pins w" 0 "\<lambda>k. ?S ! k" "nat channelCount", simplified])
      simp
  also have "\<dots> = map (\<lambda>k. (k, ?S ! k)) [0..<nat channelCount]"
    using le by (intro map_cong) auto
  also have "\<dots> = zip [0..<nat channelCount] ?S"
    by (simp add: zip_upt_nth length_sweep_samples)
  finally have a: "selected_reads (pins w) (new_events w (hw (sweep E channelCount w))) =
       zip [0..<nat channelCount] ?S" .
  have b: "fsrData (sweep E channelCount w) =
       concat (map (\<lambda>k. fsr_field (int k) (?S ! k)) [0..<nat channelCount])"
    using fsrData_sweep_from [of E channelCount 0 "\<lparr>fsrData = [], activeSensors = 0, hw = w\<rparr>"]
    by (simp add: sweep_samples_def sweep_def)
  from a b show ?thesis by blast
qed

theorem sweep_samples_in_channel_order_witness:
  "(12::int) \<le> 16 \<and>
   selected_reads (pins reset_board) (new_events reset_board (hw (read_fsr bench reset_board))) =
     [(0, 150), (1, 150), (2, 150), (3, 150), (4, 150), (5, 150),
      (6, 150), (7, 150), (8, 150), (9, 150), (10, 150), (11, 150)]"
proof -
  have le: "(12::int) \<le> 16" by simp
  have s: "sweep_samples bench 12 reset_board = replicate 12 150"
    by code_simp
  have z: "zip [0..<nat 12] (replicate 12 (150::int)) =
     [(0, 150), (1, 150), (2, 150), (3, 150), (4, 150), (5, 150),
      (6, 150), (7, 150), (8, 150), (9, 150), (10, 150), (11, 150)]"
    by code_simp
  from sweep_samples_in_channel_order [OF le, of reset_board bench] le show ?thesis
    by (simp only: read_fsr_def s z simp_thms)
qed

text \<open>
  C8. The trace of a sweep is, channel after channel in ascending order: the four
  writes that select the channel, the settle delay of 10 ms, the analog conversion that
  yields the channel's sample, and the five serial prints reporting it. So each
  conversion comes after the selection of its channel and the delay, and no write to a
  select line stands between a selection and its conversion.
\<close>

theorem sweep_select_settle_sample_order:
  "trace (hw (sweep E channelCount w)) =
     trace w @
     concat (map (\<lambda>k.
         select_events (of_nat k) @
         [Delay 10, AnalogRead MUX_SIG (sweep_samples E channelCount w ! k)] @
         [SerialOut ''FSR'', SerialOut (String_int (int k)), SerialOut '': '',
          SerialOut (String_int (sweep_samples E channelCount w ! k)), SerialOut [CHR 0x09]])
       [0..<nat channelCount])"
proof -
  have "trace (hw (sweep E channelCount w)) =
          trace w @ new_events w (hw (sweep E channelCount w))"
    using trace_sweep_from [of E channelCount 0 "\<lparr>fsrData = [], activeSensors = 0, hw = w\<rparr>"]
    by (simp add: sweep_def)
  then show ?thesis
    by (simp only: new_events_sweep_cycles [of w E channelCount] channel_cycle_def
        of_int_of_nat_eq)
qed

section \<open>Facts about the indicator outputs\<close>

lemma pins_after_append: "pins_after ps (xs @ ys) = pins_after (pins_after ps xs) ys"
  by (induction xs arbitrary: ps) auto

lemma pins_after_quiet_led:
  "list_all (\<lambda>e. \<not> writes_led e) evs \<Longrightarrow>
     pins_after ps evs GREEN_LED = ps GREEN_LED \<and> pins_after ps evs RED_LED = ps RED_LED"
proof (induction evs arbitrary: ps)
  case Nil
  then show ?case by simp
next
  case (Cons e evs)
  then show ?case by (cases e) auto
qed

lemma quiet_refl: "quiet w w"
  by (simp add: quiet_def)

lemma quiet_emit: "quiet w w1 \<Longrightarrow> \<not> is_write e \<Longrightarrow> quiet w (emit e w1)"
  by (cases e) (auto simp: quiet_def emit_def pins_after_append)

lemma quiet_digitalWrite:
  "quiet w w1 \<Longrightarrow> p \<noteq> GREEN_LED \<Longrightarrow> p \<noteq> RED_LED \<Longrightarrow> quiet w (digitalWrite p v w1)"
  by (auto simp: quiet_def emit_def digitalWrite_def pins_after_append)

lemma quiet_calls:
  "quiet w w1 \<Longrightarrow> quiet w (delay ms w1)"
  "quiet w w1 \<Longrightarrow> quiet w (Serial_print s w1)"
  "quiet w w1 \<Longrightarrow> quiet w (Serial_println s w1)"
  "quiet w w1 \<Longrightarrow> quiet w (pinMode p m w1)"
  "quiet w w1 \<Longrightarrow> quiet w (call name w1)"
  "quiet w w1 \<Longrightarrow> quiet w (snd (analogRead E p w1))"
  "quiet w w1 \<Longrightarrow> quiet w (snd (digitalRead E p w1))"
  "quiet w w1 \<Longrightarrow> quiet w (snd (WiFi_connected E w1))"
  "quiet w w1 \<Longrightarrow> quiet w (snd (WiFi_localIP E w1))"
  "quiet w w1 \<Longrightarrow> quiet w (snd (http_GET E w1))"
  "quiet w w1 \<Longrightarrow> quiet w (snd (http_getString E w1))"
  "quiet w w1 \<Longrightarrow> quiet w (snd (mpu_begin E w1))"
  "quiet w w1 \<Longrightarrow> quiet w (snd (mpu_getEvent E w1))"
  "quiet w w1 \<Longrightarrow> quiet w (snd (dht_readHumidity E w1))"
  "quiet w w1 \<Longrightarrow> quiet w (snd (dht_readTemperature E w1))"
  by (simp_all add: delay_def Serial_print_def Serial_println_def pinMode_def call_def
      analogRead_def digitalRead_def WiFi_connected_def WiFi_localIP_def http_GET_def
      http_getString_def mpu_begin_def mpu_getEvent_def dht_readHumidity_def
      dht_readTemperature_def Let_def quiet_emit)

lemma quiet_selectMuxChannel: "quiet w w1 \<Longrightarrow> quiet w (selectMuxChannel c w1)"
  by (simp add: selectMuxChannel_def Let_def quiet_digitalWrite pin_defs)

lemma quiet_sweep_body: "quiet w (hw st) \<Longrightarrow> quiet w (hw (sweep_body E i st))"
  by (simp add: sweep_body_def Let_def split_def quiet_calls quiet_selectMuxChannel)

lemma quiet_sweep_from: "quiet w (hw st) \<Longrightarrow> quiet w (hw (sweep_from E n i st))"
proof (induction E n i st rule: sweep_from.induct)
  case (1 E n i st)
  show ?case
  proof (cases "i < n")
    case True
    then show ?thesis
      using 1 by (simp add: sweep_from_step quiet_sweep_body)
  next
    case False
    then show ?thesis using 1 by (simp add: sweep_from_done)
  qed
qed

lemma quiet_read_fsr: "quiet w w1 \<Longrightarrow> quiet w (hw (read_fsr E w1))"
  by (simp add: read_fsr_def sweep_def quiet_sweep_from)

lemma quiet_wifi_wait: "quiet w w1 \<Longrightarrow> quiet w (wifi_wait E attempts w1)"
proof (induction E attempts w1 rule: wifi_wait.induct)
  case (1 E attempts w1)
  show ?case
  proof (cases "\<not> fst (WiFi_connected E w1) \<and> attempts < 20")
    case True
    let ?w' = "Serial_print ''.''
               (delay 500
                 (digitalWrite BUILTIN_LED
                    (if fst (digitalRead E BUILTIN_LED (snd (WiFi_connected E w1))) = 0 then 1 else 0)
                    (snd (digitalRead E BUILTIN_LED (snd (WiFi_connected E w1))))))"
    have q: "quiet w ?w'"
      using 1(2) by (intro quiet_calls quiet_digitalWrite) (simp_all add: pin_defs)
    have "wifi_wait E attempts w1 = wifi_wait E (attempts + 1) ?w'"
      by (subst wifi_wait.simps) (simp only: True simp_thms if_True)
    then show ?thesis
      using 1(1) [OF True q] by simp
  next
    case False
    have "wifi_wait E attempts w1 = snd (WiFi_connected E w1)"
      by (subst wifi_wait.simps) (simp only: False simp_thms if_False)
    then show ?thesis
      using 1(2) by (simp add: quiet_calls)
  qed
qed

lemma quiet_connectToWiFi: "quiet w w1 \<Longrightarrow> quiet w (connectToWiFi E w1)"
  by (simp add: connectToWiFi_def Let_def split_def quiet_calls quiet_wifi_wait quiet_emit
      quiet_digitalWrite pin_defs)

lemma quiet_if:
  "(c \<Longrightarrow> quiet w a) \<Longrightarrow> (\<not> c \<Longrightarrow> quiet w b) \<Longrightarrow> quiet w (if c then a else b)"
  by simp

lemma quiet_sendDataToGoogleSheets:
  "quiet w w1 \<Longrightarrow> quiet w (sendDataToGoogleSheets E d w1)"
  unfolding sendDataToGoogleSheets_def Let_def split_def
  by (intro quiet_if quiet_calls quiet_emit quiet_connectToWiFi) simp_all

lemma quiet_read_dht: "quiet w w1 \<Longrightarrow> quiet w (snd (snd (read_dht E w1)))"
  by (simp add: read_dht_def Let_def split_def quiet_calls)

lemma quiet_acquire: "quiet w w1 \<Longrightarrow> quiet w (snd (snd (acquire E w1)))"
  by (simp add: acquire_def Let_def split_def quiet_calls quiet_read_dht quiet_read_fsr)

lemma level_nonzero:
  "(green_level a k \<noteq> 0) = (a > k)" "(red_level a k \<noteq> 0) = (\<not> a > k)"
  by (simp_all add: green_level_def red_level_def HIGH_def LOW_def)

lemma quiet_before_leds: "quiet w (before_leds E w)"
  unfolding before_leds_def
  by (intro quiet_sendDataToGoogleSheets quiet_acquire quiet_refl)

lemma loop_green_unfold:
  "loop_green E w = digitalWrite GREEN_LED (green_level (fst (acquire E w)) 4) (before_leds E w)"
  by (simp add: loop_green_def before_leds_def split_def Let_def)

lemma loop_unfold:
  "loop E w =
     delay 500 (digitalWrite RED_LED (red_level (fst (acquire E w)) 4) (loop_green E w))"
  by (simp add: loop_def loop_green_def split_def Let_def)

lemma pins_loop_green:
  "pins (loop_green E w) = (pins (before_leds E w))(GREEN_LED := fst (acquire E w) > 4)"
  by (simp add: loop_green_unfold digitalWrite_def emit_def level_nonzero)

lemma pins_loop:
  "pins (loop E w) =
     (pins (before_leds E w))
       (GREEN_LED := fst (acquire E w) > 4, RED_LED := \<not> fst (acquire E w) > 4)"
  by (simp add: loop_unfold pins_loop_green digitalWrite_def delay_def emit_def level_nonzero)

lemma leds_before_leds:
  "pins (before_leds E w) GREEN_LED = pins w GREEN_LED"
  "pins (before_leds E w) RED_LED = pins w RED_LED"
  using quiet_before_leds [of w E] pins_after_quiet_led
  by (auto simp: quiet_def)

text \<open>The events of an iteration: those before line 196, the two indicator writes, the pause.\<close>

lemma new_events_loop:
  "new_events w (loop E w) =
     new_events w (before_leds E w) @
     [DigitalWrite GREEN_LED (fst (acquire E w) > 4),
      DigitalWrite RED_LED (\<not> fst (acquire E w) > 4), Delay 500]"
proof -
  obtain evs where "trace (before_leds E w) = trace w @ evs"
    using quiet_before_leds [of w E] by (auto simp: quiet_def)
  then show ?thesis
    by (simp add: new_events_def loop_unfold loop_green_unfold digitalWrite_def delay_def
        emit_def level_nonzero)
qed

lemma new_events_before_leds:
  "list_all (\<lambda>e. \<not> writes_led e) (new_events w (before_leds E w)) \<and>
   pins (before_leds E w) = pins_after (pins w) (new_events w (before_leds E w))"
  using quiet_before_leds [of w E] by (auto simp: quiet_def new_events_def)

text \<open>
  The pin levels along an iteration are those of the model: after all its events the
  levels of \<open>loop\<close>, and two events before the end (the second indicator write and the
  pause still to come) the levels of \<open>loop_green\<close>.
\<close>

lemma pins_after_loop:
  "pins_after (pins w) (new_events w (loop E w)) = pins (loop E w)"
  by (simp add: new_events_loop pins_after_append pins_loop
      new_events_before_leds [THEN conjunct2, symmetric])

lemma pins_after_loop_green:
  "pins_after (pins w)
     (take (length (new_events w (loop E w)) - 2) (new_events w (loop E w))) =
   pins (loop_green E w)"
  by (simp add: new_events_loop pins_after_append pins_loop_green
      new_events_before_leds [THEN conjunct2, symmetric])

lemma leds_along_loop:
  assumes ex: "leds_exclusive (pins w)"
    and k: "k \<le> length (new_events w (loop E w))"
    and nk: "k \<noteq> length (new_events w (loop E w)) - 2"
  shows "leds_exclusive (pins_after (pins w) (take k (new_events w (loop E w))))"
proof -
  define pre where "pre = new_events w (before_leds E w)"
  define a where "a = fst (acquire E w)"
  have evs: "new_events w (loop E w) =
      pre @ [DigitalWrite GREEN_LED (a > 4), DigitalWrite RED_LED (\<not> a > 4), Delay 500]"
    by (simp add: new_events_loop pre_def a_def)
  have q: "list_all (\<lambda>e. \<not> writes_led e) pre"
    using new_events_before_leds [of w E] by (simp add: pre_def)
  have distinct: "GREEN_LED \<noteq> RED_LED" by (simp add: pin_defs)
  consider "k \<le> length pre" | "k = length pre + 2" | "k = length pre + 3"
    using k nk unfolding evs by force
  then show ?thesis
  proof cases
    case 1
    have "list_all (\<lambda>e. \<not> writes_led e) (take k pre)"
      using q by (auto simp: list_all_iff dest: in_set_takeD)
    then have "pins_after (pins w) (take k pre) GREEN_LED = pins w GREEN_LED \<and>
               pins_after (pins w) (take k pre) RED_LED = pins w RED_LED"
      by (rule pins_after_quiet_led)
    then show ?thesis
      using ex 1 unfolding evs by (simp add: leds_exclusive_def)
  next
    case 2
    then show ?thesis
      unfolding evs using distinct by (simp add: pins_after_append leds_exclusive_def)
  next
    case 3
    then show ?thesis
      unfolding evs using distinct by (simp add: pins_after_append leds_exclusive_def)
  qed
qed

text \<open>Initialization leaves the red output high and the green one low.\<close>

lemma setup_ino_leds:
  assumes "setup_ino E w0 = Some w"
  shows "pins w RED_LED \<and> \<not> pins w GREEN_LED"
proof -
  obtain w1 where w1: "wait_serial E (call ''Serial.begin(115200)'' w0) = Some w1"
    using assms by (auto simp: setup_ino_def split: option.splits)
  define w9 where "w9 = digitalWrite GREEN_LED LOW (digitalWrite RED_LED HIGH
     (pinMode RED_LED OUTPUT (pinMode GREEN_LED OUTPUT (pinMode MUX_SIG INPUT
       (pinMode S3 OUTPUT (pinMode S2 OUTPUT (pinMode S1 OUTPUT (pinMode S0 OUTPUT w1))))))))"
  define w12 where "w12 = snd (mpu_begin E (call ''Wire.begin(21, 22)'' (connectToWiFi E w9)))"
  have w: "w = delay 2000 (Serial_println ''DHT22 Initialized'' (call ''dht.begin()''
      (call ''mpu.setFilterBandwidth(MPU6050_BAND_21_HZ)''
        (call ''mpu.setGyroRange(MPU6050_RANGE_500_DEG)''
          (call ''mpu.setAccelerometerRange(MPU6050_RANGE_8_G)''
            (Serial_println ''MPU6050 Found!'' w12))))))"
    using assms w1
    by (simp add: setup_ino_def Let_def split_def w9_def w12_def split: if_splits)
  have "quiet w9 w12"
    unfolding w12_def by (intro quiet_calls quiet_connectToWiFi quiet_refl)
  then have "quiet w9 w"
    unfolding w by (intro quiet_calls)
  then have "pins w GREEN_LED = pins w9 GREEN_LED \<and> pins w RED_LED = pins w9 RED_LED"
    using pins_after_quiet_led by (auto simp: quiet_def)
  moreover have "pins w9 RED_LED \<and> \<not> pins w9 GREEN_LED"
    by (simp add: w9_def digitalWrite_def emit_def HIGH_def LOW_def pin_defs)
  ultimately show ?thesis by simp
qed

lemma reachable_leds_exclusive: "reachable E w0 w \<Longrightarrow> leds_exclusive (pins w)"
proof (induction rule: reachable.induct)
  case (after_setup w)
  then show ?case
    using setup_ino_leds by (auto simp: leds_exclusive_def)
next
  case (after_loop w)
  show ?case
    by (simp add: pins_loop leds_exclusive_def pin_defs)
qed

lemma setup_ino_returns:
  assumes "serial_ready E (trace (call ''Serial.begin(115200)'' w))"
    and "\<And>tr. mpu_found E tr"
  shows "\<exists>w'. setup_ino E w = Some w'"
proof -
  have "wait_serial E (call ''Serial.begin(115200)'' w) =
          Some (emit (SerialReady True) (call ''Serial.begin(115200)'' w))"
    using assms(1) by (subst wait_serial.simps) simp
  then show ?thesis
    using assms(2) by (simp add: setup_ino_def Let_def split_def mpu_begin_def)
qed

lemma activeSensors_all_over:
  assumes "\<And>tr. analog_in E tr > PRESSURE_THRESHOLD"
  shows "activeSensors (sweep_from E n i st) = activeSensors st + (if i < n then n - i else 0)"
  using assms
proof (induction E n i st rule: sweep_from.induct)
  case (1 E n i st)
  show ?case
  proof (cases "i < n")
    case True
    have "body_sample E i (hw st) > PRESSURE_THRESHOLD"
      unfolding body_sample_def by (rule "1.prems")
    then show ?thesis
      using True "1.IH" [OF True "1.prems"]
      by (simp add: sweep_from_step activeSensors_sweep_body)
  next
    case False
    then show ?thesis by (simp add: sweep_from_done)
  qed
qed

lemma led_pins_differ: "GREEN_LED \<noteq> RED_LED" "RED_LED \<noteq> GREEN_LED"
  by (simp_all add: pin_defs)

lemma bench_active: "fst (acquire bench w) = 12"
proof -
  have "analog_in bench tr > PRESSURE_THRESHOLD" for tr
    by (simp add: bench_def PRESSURE_THRESHOLD_def)
  then show ?thesis
    using activeSensors_all_over [of bench 12 0 "\<lparr>fsrData = [], activeSensors = 0, hw = w\<rparr>"]
    by (simp add: acquire_active read_fsr_def sweep_def)
qed

lemma bench_setup_returns: "setup_ino bench reset_board = Some (the (setup_ino bench reset_board))"
proof -
  have "\<exists>w'. setup_ino bench reset_board = Some w'"
    by (rule setup_ino_returns) (simp_all add: bench_def)
  then show ?thesis by auto
qed

text \<open>
  C6, as stated, fails. On the bench, \<^verbatim>\<open>setup\<close> returns with the red output high and the
  green one low; in the first iteration of \<^verbatim>\<open>loop\<close> all twelve sensors read above the
  threshold, line 196 drives the green output high, and until line 197 has driven the
  red output low both indicator outputs are high.
\<close>

theorem indicators_both_high_between_writes:
  "reachable bench reset_board (the (setup_ino bench reset_board)) \<and>
   pins (loop_green bench (the (setup_ino bench reset_board))) GREEN_LED \<and>
   pins (loop_green bench (the (setup_ino bench reset_board))) RED_LED \<and>
   \<not> leds_exclusive
       (pins_after (pins (the (setup_ino bench reset_board)))
          (take (length (new_events (the (setup_ino bench reset_board))
                           (loop bench (the (setup_ino bench reset_board)))) - 2)
             (new_events (the (setup_ino bench reset_board))
                (loop bench (the (setup_ino bench reset_board))))))"
proof -
  define W where "W = the (setup_ino bench reset_board)"
  have s: "setup_ino bench reset_board = Some W"
    unfolding W_def by (rule bench_setup_returns)
  then have r: "reachable bench reset_board W"
    by (rule after_setup)
  have "pins W RED_LED"
    using setup_ino_leds [OF s] by simp
  then have red: "pins (loop_green bench W) RED_LED"
    by (simp add: pins_loop_green leds_before_leds led_pins_differ)
  have green: "pins (loop_green bench W) GREEN_LED"
    by (simp add: pins_loop_green bench_active)
  from green red have "\<not> leds_exclusive (pins (loop_green bench W))"
    by (simp add: leds_exclusive_def)
  then have "\<not> leds_exclusive
       (pins_after (pins W) (take (length (new_events W (loop bench W)) - 2)
             (new_events W (loop bench W))))"
    by (simp add: pins_after_loop_green)
  with r green red show ?thesis
    unfolding W_def by blast
qed

text \<open>
  C6, amended. From every board on which \<^verbatim>\<open>setup\<close> or an iteration of \<^verbatim>\<open>loop\<close> has
  returned, exactly one of the two indicator outputs is high there and after every
  event of the next iteration, except after the event third from last, the write of
  line 196: between the two indicator writes the two outputs are in different states
  only if the green output already showed the new status.
\<close>

theorem indicators_exclusive_outside_update:
  assumes "reachable E w0 w"
    and "k \<le> length (new_events w (loop E w))"
    and "k \<noteq> length (new_events w (loop E w)) - 2"
  shows "leds_exclusive (pins w) \<and>
         leds_exclusive (pins_after (pins w) (take k (new_events w (loop E w)))) \<and>
         leds_exclusive (pins (loop_green E w)) = (pins w GREEN_LED = (fst (acquire E w) > 4))"
proof -
  have ex: "leds_exclusive (pins w)"
    using assms(1) by (rule reachable_leds_exclusive)
  have "leds_exclusive (pins_after (pins w) (take k (new_events w (loop E w))))"
    using ex assms(2,3) by (rule leds_along_loop)
  moreover have
    "leds_exclusive (pins (loop_green E w)) = (pins w GREEN_LED = (fst (acquire E w) > 4))"
    using ex by (auto simp: leds_exclusive_def pins_loop_green leds_before_leds led_pins_differ)
  ultimately show ?thesis using ex by blast
qed

theorem indicators_exclusive_outside_update_witness:
  "reachable bench reset_board (the (setup_ino bench reset_board)) \<and>
   leds_exclusive (pins (the (setup_ino bench reset_board))) \<and>
   leds_exclusive (pins (loop bench (the (setup_ino bench reset_board))))"
proof -
  define W where "W = the (setup_ino bench reset_board)"
  define n where "n = length (new_events W (loop bench W))"
  have r: "reachable bench reset_board W"
    unfolding W_def by (rule after_setup) (rule bench_setup_returns)
  have k: "n \<le> length (new_events W (loop bench W))"
    by (simp add: n_def)
  have nk: "n \<noteq> length (new_events W (loop bench W)) - 2"
    by (simp add: n_def new_events_loop)
  have "leds_exclusive (pins W) \<and>
        leds_exclusive (pins_after (pins W) (take n (new_events W (loop bench W))))"
    using indicators_exclusive_outside_update [OF r k nk] by blast
  then have "leds_exclusive (pins W) \<and> leds_exclusive (pins (loop bench W))"
    by (simp add: n_def pins_after_loop)
  with r show ?thesis
    unfolding W_def by blast
qed

text \<open>
  C2. The status the two indicator levels of the program show is ALERT exactly when the
  active count is strictly greater than the alert threshold, and NORMAL otherwise:
  ALERT for 5 against 4, NORMAL for 4 against 4 and for 0 against 4. After an iteration
  of \<^verbatim>\<open>loop\<close> the indicator outputs show the decision for its active count against 4.
\<close>

theorem decide_alert_iff_over_threshold:
  "(decide activeCount alertThreshold = Some ALERT) = (activeCount > alertThreshold) \<and>
   (decide activeCount alertThreshold = Some NORMAL) = (activeCount \<le> alertThreshold) \<and>
   decide 5 4 = Some ALERT \<and> decide 4 4 = Some NORMAL \<and> decide 0 4 = Some NORMAL \<and>
   shown_status (pins (loop E w) GREEN_LED) (pins (loop E w) RED_LED) =
     decide (fst (acquire E w)) 4"
proof -
  have d: "decide a k = (if a > k then Some ALERT else Some NORMAL)" for a k
    by (simp add: decide_def shown_status_def level_nonzero)
  have "shown_status (pins (loop E w) GREEN_LED) (pins (loop E w) RED_LED) =
     decide (fst (acquire E w)) 4"
    by (simp add: d pins_loop shown_status_def pin_defs)
  then show ?thesis
    by (simp add: d)
qed

text \<open>
  C7. With the alert threshold fixed, a larger active count never turns the decision
  from ALERT to NORMAL.
\<close>

theorem decide_monotone:
  "decide a k = Some ALERT \<Longrightarrow> a \<le> a' \<Longrightarrow> decide a' k = Some ALERT"
  by (simp add: decide_def shown_status_def level_nonzero split: if_splits)

theorem decide_monotone_witness:
  "decide 5 4 = Some ALERT \<and> (5::int) \<le> 7 \<and> decide 7 4 = Some ALERT"
proof -
  have a: "decide 5 4 = Some ALERT"
    by (simp add: decide_def shown_status_def level_nonzero)
  have b: "(5::int) \<le> 7" by simp
  from decide_monotone [OF a b] a b show ?thesis by blast
qed

lemma acquire_postData:
  "fst (snd (acquire E w)) =
     make_postData E (fsrData (read_fsr E w)) (activeSensors (read_fsr E w))
       (fst (mpu_getEvent E (Serial_println [] (hw (read_fsr E w)))))
       (humidity_sent E w) (dhtTemp_sent E w)"
  by (simp add: acquire_def humidity_sent_def dhtTemp_sent_def dht_board_def Let_def split_def)

lemma append_front:
  "\<exists>front. a1 @ a2 @ a3 @ a4 @ a5 @ a6 @ a7 @ a8 @ a9 @ a10 @ a11 @ a12 @ a13 @ a14 @
      a15 @ a16 @ a17 @ r = front @ (r::'a list)"
  by (rule exI [of _ "a1 @ a2 @ a3 @ a4 @ a5 @ a6 @ a7 @ a8 @ a9 @ a10 @ a11 @ a12 @ a13 @
      a14 @ a15 @ a16 @ a17"]) simp

text \<open>
  C10. When the humidity or the temperature the environmental sensor returns is NaN,
  the program replaces both by \<open>-1\<close>; when neither is, it keeps both as read. The data
  string of the iteration, which is what \<^verbatim>\<open>loop\<close> hands to the upload, ends with these two
  values, formatted.
\<close>

theorem dht_nan_replaced_by_sentinel:
  "(humidity_sent E w, dhtTemp_sent E w) =
     (if isnan (humidity_read E w) \<or> isnan (temperature_read E w)
      then (Finite (- 1), Finite (- 1))
      else (humidity_read E w, temperature_read E w)) \<and>
   (\<exists>front. fst (snd (acquire E w)) =
      front @ ''&dhtHumidity='' @ String_float E (humidity_sent E w) 2 @
              ''&dhtTemp='' @ String_float E (dhtTemp_sent E w) 2) \<and>
   before_leds E w =
     sendDataToGoogleSheets E (fst (snd (acquire E w))) (snd (snd (acquire E w)))"
proof -
  have a: "(humidity_sent E w, dhtTemp_sent E w) =
     (if isnan (humidity_read E w) \<or> isnan (temperature_read E w)
      then (Finite (- 1), Finite (- 1))
      else (humidity_read E w, temperature_read E w))"
    by (simp add: humidity_sent_def dhtTemp_sent_def humidity_read_def temperature_read_def
        read_dht_def dht_readHumidity_def dht_readTemperature_def Let_def emit_def)
  have b: "\<exists>front. fst (snd (acquire E w)) =
      front @ ''&dhtHumidity='' @ String_float E (humidity_sent E w) 2 @
              ''&dhtTemp='' @ String_float E (dhtTemp_sent E w) 2"
    unfolding acquire_postData make_postData_def by (rule append_front)
  from a b show ?thesis
    by (simp only: before_leds_def simp_thms)
qed

end
